theory Spec2Isabelle
  imports Complex_Main
begin

section \<open>Board cells and grids\<close>

text \<open>
  The Checkers board is a two-dimensional numpy array of floats (\<^verbatim>\<open>np.nan\<close> forces the
  float dtype). A cell is therefore a float: not-a-number, one of the two infinities, or a
  finite value, which is represented here by a rational number.
\<close>

datatype cell = NaN | PInf | NInf | Fin rat

text \<open>A two-dimensional array is the list of its rows, as in the literal of \<^verbatim>\<open>board_setup\<close>.\<close>

type_synonym ndarray = "cell list list"

subsection \<open>\<^verbatim>\<open>GameEngines/Checkers/PythonEngine/utils.py\<close>\<close>

definition board_setup :: ndarray where
  "board_setup =
    (let n = NaN in
     [[ n, n, n, Fin 1, Fin 1, n, n, n],
      [ n, n, Fin 0, Fin 1, Fin 1, Fin 1, n, n],
      [ n, Fin (-1), Fin 0, Fin 0, Fin 1, Fin 1, Fin 1, n],
      [ Fin (-1), Fin (-1), Fin (-1), Fin 0, Fin 0, Fin 1, Fin 1, Fin 1],
      [ n, Fin (-1), Fin (-1), Fin (-1), Fin 0, Fin 0, Fin 1, n],
      [ n, n, Fin (-1), Fin (-1), Fin (-1), Fin 0, n, n],
      [ n, n, n, Fin (-1), Fin (-1), n, n, n]])"

section \<open>Python and numpy operations used by the renderer\<close>

text \<open>
  The exceptions in play. \<^verbatim>\<open>int\<close> of an infinite float raises \<^verbatim>\<open>OverflowError\<close> and
  \<^verbatim>\<open>int\<close> of NaN raises \<^verbatim>\<open>ValueError\<close>. \<^verbatim>\<open>MalformedBoardError\<close> is the error the
  specification names for a grid of the wrong shape.
\<close>

datatype error = OverflowError | ValueError | MalformedBoardError

text \<open>Float comparisons against a finite constant: every comparison with NaN is false,
  except \<^verbatim>\<open>!=\<close>, which is true.\<close>

fun fgt :: "cell \<Rightarrow> rat \<Rightarrow> bool" where
  "fgt NaN c = False"
| "fgt PInf c = True"
| "fgt NInf c = False"
| "fgt (Fin q) c = (c < q)"

fun flt :: "cell \<Rightarrow> rat \<Rightarrow> bool" where
  "flt NaN c = False"
| "flt PInf c = False"
| "flt NInf c = True"
| "flt (Fin q) c = (q < c)"

fun feq :: "cell \<Rightarrow> rat \<Rightarrow> bool" where
  "feq (Fin q) c = (q = c)"
| "feq v c = False"

definition fne :: "cell \<Rightarrow> rat \<Rightarrow> bool" where
  "fne v c = (\<not> feq v c)"

text \<open>\<^verbatim>\<open>int(v)\<close> truncates a finite float towards zero.\<close>

definition trunc :: "rat \<Rightarrow> int" where
  "trunc q = (if 0 \<le> q then \<lfloor>q\<rfloor> else \<lceil>q\<rceil>)"

fun py_int :: "cell \<Rightarrow> error + int" where
  "py_int NaN = Inl ValueError"
| "py_int PInf = Inl OverflowError"
| "py_int NInf = Inl OverflowError"
| "py_int (Fin q) = Inr (trunc q)"

text \<open>Decimal formatting of an integer, as \<^verbatim>\<open>f'{k}'\<close> does.\<close>

definition digit_char :: "nat \<Rightarrow> char" where
  "digit_char d = ''0123456789'' ! d"

fun str_nat :: "nat \<Rightarrow> string" where
  "str_nat n = (if n < 10 then [digit_char n] else str_nat (n div 10) @ [digit_char (n mod 10)])"

declare str_nat.simps [simp del]

definition str_int :: "int \<Rightarrow> string" where
  "str_int k = (if k < 0 then CHR ''-'' # str_nat (nat (- k)) else str_nat (nat k))"

text \<open>\<^verbatim>\<open>sep.join(xs)\<close>.\<close>

fun join :: "string \<Rightarrow> string list \<Rightarrow> string" where
  "join sep [] = []"
| "join sep [x] = x"
| "join sep (x # y # ys) = x @ sep @ join sep (y # ys)"

text \<open>
  Strings are kept as their UTF-8 bytes: the full block U+2588 of the source is the three
  bytes E2 96 88. The colour codes are the constants of colorama's \<^verbatim>\<open>Fore\<close>.
\<close>

definition BLOCK :: string where
  "BLOCK = [CHR 0xE2, CHR 0x96, CHR 0x88]"

definition LIGHTBLUE_EX :: string where
  "LIGHTBLUE_EX = CHR 0x1B # ''[94m''"

definition LIGHTYELLOW_EX :: string where
  "LIGHTYELLOW_EX = CHR 0x1B # ''[93m''"

definition RESET :: string where
  "RESET = CHR 0x1B # ''[39m''"

definition newline :: char where
  "newline = CHR 0x0A"

text \<open>
  \<^verbatim>\<open>a.diagonal(k)\<close> of a two-dimensional array: the cells \<^verbatim>\<open>a[r][r + k]\<close> that exist, by
  increasing row. \<open>diag_from rows c\<close> walks the rows with the column \<open>c\<close> of the first one.
\<close>

fun diag_from :: "'a list list \<Rightarrow> int \<Rightarrow> 'a list" where
  "diag_from [] c = []"
| "diag_from (row # rows) c =
     (if 0 \<le> c \<and> nat c < length row then [row ! nat c] else []) @ diag_from rows (c + 1)"

definition diagonal :: "'a list list \<Rightarrow> int \<Rightarrow> 'a list" where
  "diagonal a k = diag_from a k"

text \<open>
  \<^verbatim>\<open>line[line != c]\<close>: the comparison gives a boolean mask, and indexing by the mask keeps
  the cells where it is true, in order.
\<close>

definition mask_ne :: "cell list \<Rightarrow> rat \<Rightarrow> cell list" where
  "mask_ne line c = filter (\<lambda>v. fne v c) line"

section \<open>\<^verbatim>\<open>GameEngines/Checkers/repr.py\<close>\<close>

text \<open>The receiver of \<^verbatim>\<open>_repr\<close>: any object with a \<^verbatim>\<open>board\<close> attribute.\<close>

record board_state =
  board :: ndarray

text \<open>The inner loop \<^verbatim>\<open>for v in line\<close>, with its accumulator \<^verbatim>\<open>val_acc\<close>.\<close>

fun val_loop :: "cell list \<Rightarrow> string list \<Rightarrow> error + string list" where
  "val_loop [] val_acc = Inr val_acc"
| "val_loop (v # line) val_acc =
     (if fgt v 0 then
        (case py_int v of
           Inl e \<Rightarrow> Inl e
         | Inr k \<Rightarrow> val_loop line (val_acc @ [LIGHTBLUE_EX @ str_int k @ RESET]))
      else if flt v 0 then
        (case py_int v of
           Inl e \<Rightarrow> Inl e
         | Inr k \<Rightarrow> val_loop line (val_acc @ [LIGHTYELLOW_EX @ str_int \<bar>k\<bar> @ RESET]))
      else if feq v 0 then val_loop line (val_acc @ ['' ''])
      else val_loop line val_acc)"

text \<open>The outer loop \<^verbatim>\<open>for i in range(8)\<close>, with its accumulator \<^verbatim>\<open>line_acc\<close>.\<close>

fun line_loop :: "ndarray \<Rightarrow> nat list \<Rightarrow> string list \<Rightarrow> error + string list" where
  "line_loop b [] line_acc = Inr line_acc"
| "line_loop b (i # is) line_acc =
     (let line = diagonal b (4 - int i);
          line = mask_ne line 3
      in case val_loop line [] of
           Inl e \<Rightarrow> Inl e
         | Inr val_acc \<Rightarrow>
             let line_acc = line_acc @ [join ('' '' @ BLOCK @ '' '') val_acc];
                 line_acc = butlast line_acc @
                   [str_nat i @ '' '' @
                     (if i mod 2 = 1 then last line_acc @ '' '' @ BLOCK
                      else BLOCK @ '' '' @ last line_acc)]
             in line_loop b is line_acc)"

text \<open>\<^verbatim>\<open>_repr\<close> (an Isabelle name cannot start with an underscore).\<close>

definition repr :: "'a board_state_scheme \<Rightarrow> error + string" where
  "repr self =
     (let b = board self;
          index = ''  '' @ join '' '' (map str_nat [0..<8]);
          line_acc = [index]
      in case line_loop b [0..<8] line_acc of
           Inl e \<Rightarrow> Inl e
         | Inr line_acc \<Rightarrow> Inr (join [newline] line_acc))"

section \<open>Notions used to state the properties\<close>

text \<open>The separator between two glyphs of a row, and the text of row \<open>i\<close> around its
  joined glyphs \<open>s\<close>: the value the loop body leaves in \<^verbatim>\<open>line_acc[-1]\<close>.\<close>

definition SEP :: string where
  "SEP = '' '' @ BLOCK @ '' ''"

definition decorate :: "nat \<Rightarrow> string \<Rightarrow> string" where
  "decorate i s =
     str_nat i @ '' '' @ (if i mod 2 = 1 then s @ '' '' @ BLOCK else BLOCK @ '' '' @ s)"

text \<open>The lines of a string, as \<^verbatim>\<open>s.split('\n')\<close> gives them.\<close>

fun lines_of :: "string \<Rightarrow> string list" where
  "lines_of [] = [[]]"
| "lines_of (c # cs) =
     (if c = newline then [] # lines_of cs
      else (case lines_of cs of [] \<Rightarrow> [[c]] | l # ls \<Rightarrow> (c # l) # ls))"

text \<open>Grids without an infinite cell.\<close>

fun is_inf :: "cell \<Rightarrow> bool" where
  "is_inf PInf = True"
| "is_inf NInf = True"
| "is_inf v = False"

fun is_fin :: "cell \<Rightarrow> bool" where
  "is_fin (Fin q) = True"
| "is_fin v = False"

definition finite_cells :: "ndarray \<Rightarrow> bool" where
  "finite_cells b = list_all (list_all (\<lambda>v. \<not> is_inf v)) b"

text \<open>
  The glyph of a cell in the words of the specification: a coloured digit for a positive
  value (player A), a coloured digit of the absolute value for a negative one (player B),
  a blank for zero.
\<close>

fun glyph :: "cell \<Rightarrow> string" where
  "glyph (Fin q) =
     (if 0 < q then LIGHTBLUE_EX @ str_int (trunc q) @ RESET
      else if q < 0 then LIGHTYELLOW_EX @ str_int \<bar>trunc q\<bar> @ RESET
      else '' '')"
| "glyph v = []"

text \<open>The rendering of the initial Checkers grid, traced by hand through \<^verbatim>\<open>_repr\<close>.\<close>

definition board_setup_repr :: string where
  "board_setup_repr =
     (let a = LIGHTBLUE_EX @ ''1'' @ RESET;
          b = LIGHTYELLOW_EX @ ''1'' @ RESET
      in join [newline]
        [''  0 1 2 3 4 5 6 7'',
         ''0 '' @ BLOCK @ '' '' @ join SEP [a, a, a, a],
         ''1 '' @ join SEP [a, a, a, a] @ '' '' @ BLOCK,
         ''2 '' @ BLOCK @ '' '' @ join SEP [a, a, a, a],
         ''3 '' @ join SEP ['' '', '' '', '' '', '' ''] @ '' '' @ BLOCK,
         ''4 '' @ BLOCK @ '' '' @ join SEP ['' '', '' '', '' '', '' ''],
         ''5 '' @ join SEP [b, b, b, b] @ '' '' @ BLOCK,
         ''6 '' @ BLOCK @ '' '' @ join SEP [b, b, b, b],
         ''7 '' @ join SEP [b, b, b, b] @ '' '' @ BLOCK])"

text \<open>An 8 by 8 grid whose playable cells form a diamond, player A on rows 0 to 3 and
  player B on rows 4 to 7, with the value 3 on the cells off the board.\<close>

definition diamond8 :: ndarray where
  "diamond8 =
    (let s = Fin 3; a = Fin 1; b = Fin (-1) in
     [[s, s, s, a, a, s, s, s],
      [s, s, a, a, a, a, s, s],
      [s, a, a, a, a, a, a, s],
      [a, a, a, a, a, a, a, a],
      [b, b, b, b, b, b, b, b],
      [s, b, b, b, b, b, b, s],
      [s, s, b, b, b, b, s, s],
      [s, s, s, b, b, s, s, s]])"

text \<open>
  The rendering written as one expression of the grid, in the words of the specification:
  the header, then for each row \<open>i\<close> the glyphs of the cells of diagonal \<open>4 - i\<close> that are
  neither the sentinel 3 nor NaN, joined by the separator and framed by the row index and
  the wall on the side its parity asks for. Should one of the eight diagonals hold an
  infinite cell, the result is the error \<^verbatim>\<open>int\<close> raises on it.
\<close>

definition row_text :: "ndarray \<Rightarrow> nat \<Rightarrow> string" where
  "row_text b i =
     decorate i (join SEP (map glyph
       (filter (\<lambda>v. v \<noteq> Fin 3 \<and> v \<noteq> NaN) (diagonal b (4 - int i)))))"

definition render :: "ndarray \<Rightarrow> error + string" where
  "render b =
     (if list_ex (\<lambda>i. list_ex is_inf (diagonal b (4 - int i))) [0..<8] then Inl OverflowError
      else Inr (join [newline] (''  0 1 2 3 4 5 6 7'' # map (row_text b) [0..<8])))"

section \<open>The move cache around \<^verbatim>\<open>get_legal_moves\<close>\<close>

text \<open>
  \<^verbatim>\<open>GameEngines/Avalam/BoardState.py\<close> replaces the method \<^verbatim>\<open>get_legal_moves\<close> of the board
  state by \<^verbatim>\<open>cache_moves(BoardState.get_legal_moves)\<close>.  The decorator is imported from
  \<^verbatim>\<open>GameEngines._generic\<close>, and the board state itself is the native class
  \<^verbatim>\<open>RawAvalamState\<close>; neither source is among the files of this development.  The
  definitions of this section therefore follow the written specification of the cache, and
  each of them says so.
\<close>

text \<open>
  Modelled from the spec: the board state handed to \<^verbatim>\<open>get_legal_moves\<close> (the native class
  \<^verbatim>\<open>RawAvalamState\<close> is missing).  The glossary describes it as one game position, made of a
  grid of cells and of whose turn it is.
\<close>

record position = board_state +
  turn :: int

text \<open>
  Modelled from the spec: the key of a cache entry (the keying of the missing
  \<^verbatim>\<open>cache_moves\<close>), taken as the content fingerprint that the specification makes the
  default: the full cell grid together with whose turn it is.
\<close>

type_synonym fingerprint = "ndarray \<times> int"

definition key_of :: "position \<Rightarrow> fingerprint" where
  "key_of b = (board b, turn b)"

text \<open>
  Modelled from the spec: the store of the missing \<^verbatim>\<open>cache_moves\<close>, a bounded cache with a
  configurable capacity.  Its entries pair a key with the moves returned for it, the most
  recently used entry first.
\<close>

record 'm move_cache =
  capacity :: nat
  entries :: "(fingerprint \<times> 'm) list"

definition empty_cache :: "nat \<Rightarrow> 'm move_cache" where
  "empty_cache n = \<lparr>capacity = n, entries = []\<rparr>"

text \<open>
  Modelled from the spec: the wrapper returned by \<^verbatim>\<open>cache_moves\<close> of
  \<^verbatim>\<open>GameEngines._generic\<close> (missing), with the store it closes over made an explicit argument
  and result.  A query whose key is stored is served from the store, and its entry becomes the
  most recent one.  Otherwise the wrapped operation runs: its error is handed on as it is and
  leaves the store alone; its moves are returned and stored in front, and the least recently
  used entries beyond the capacity are dropped.  The board state is only read.
\<close>

definition cache_moves ::
  "(position \<Rightarrow> 'e + 'm) \<Rightarrow> 'm move_cache \<Rightarrow> position \<Rightarrow> ('e + 'm) \<times> 'm move_cache" where
  "cache_moves get_legal_moves c b =
     (let k = key_of b in
      case map_of (entries c) k of
        Some moves \<Rightarrow>
          (Inr moves, c\<lparr>entries := (k, moves) # filter (\<lambda>e. fst e \<noteq> k) (entries c)\<rparr>)
      | None \<Rightarrow>
          (case get_legal_moves b of
             Inl err \<Rightarrow> (Inl err, c)
           | Inr moves \<Rightarrow>
               (Inr moves, c\<lparr>entries := take (capacity c) ((k, moves) # entries c)\<rparr>)))"

text \<open>
  A caller issuing one query after the other: the results in order, and the store left behind.
\<close>

fun cached_calls ::
  "(position \<Rightarrow> 'e + 'm) \<Rightarrow> 'm move_cache \<Rightarrow> position list \<Rightarrow> ('e + 'm) list \<times> 'm move_cache" where
  "cached_calls get_legal_moves c [] = ([], c)"
| "cached_calls get_legal_moves c (b # bs) =
     (case cache_moves get_legal_moves c b of
        (r, c') \<Rightarrow> (case cached_calls get_legal_moves c' bs of (rs, c'') \<Rightarrow> (r # rs, c'')))"

text \<open>
  The invariant of the data model: the moves of every entry are what a direct call returns
  on the position with the entry's grid and turn.
\<close>

definition position_of :: "fingerprint \<Rightarrow> position" where
  "position_of k = \<lparr>board = fst k, turn = snd k\<rparr>"

definition cache_ok :: "(position \<Rightarrow> 'e + 'm) \<Rightarrow> 'm move_cache \<Rightarrow> bool" where
  "cache_ok get_legal_moves c =
     list_all (\<lambda>e. get_legal_moves (position_of (fst e)) = Inr (snd e)) (entries c)"

section \<open>Auxiliary facts about the renderer\<close>

lemma val_loop_acc: "val_loop line acc = (case val_loop line [] of Inl e \<Rightarrow> Inl e | Inr r \<Rightarrow> Inr (acc @ r))"
proof (induction line arbitrary: acc)
  case Nil show ?case by simp
next
  case (Cons v line)
  have step: "\<And>g. val_loop line (acc @ g) = (case val_loop line g of Inl e \<Rightarrow> Inl e | Inr r \<Rightarrow> Inr (acc @ r))"
  proof -
    fix g
    show "val_loop line (acc @ g) = (case val_loop line g of Inl e \<Rightarrow> Inl e | Inr r \<Rightarrow> Inr (acc @ r))"
      by (subst Cons.IH[of "acc @ g"], subst Cons.IH[of g]) (simp split: sum.splits)
  qed
  show ?case
    using step[of "[]"] step
    by (simp split: sum.splits)
qed

lemma lines_of_ne: "lines_of s \<noteq> []"
  by (induction s) (auto split: list.splits)

lemma lines_of_append_nl:
  "newline \<notin> set x \<Longrightarrow> lines_of (x @ newline # s) = x # lines_of s"
  by (induction x) (auto split: list.splits)

lemma lines_of_plain: "newline \<notin> set x \<Longrightarrow> lines_of x = [x]"
  by (induction x) (auto split: list.splits)

lemma join_Cons: "ys \<noteq> [] \<Longrightarrow> join sep (x # ys) = x @ sep @ join sep ys"
  by (cases ys) simp_all

lemma lines_of_join:
  "xs \<noteq> [] \<Longrightarrow> \<forall>x\<in>set xs. newline \<notin> set x \<Longrightarrow> lines_of (join [newline] xs) = xs"
proof (induction xs)
  case Nil then show ?case by simp
next
  case (Cons x xs)
  show ?case
  proof (cases "xs = []")
    case True
    with Cons.prems show ?thesis by (simp add: lines_of_plain)
  next
    case False
    with Cons show ?thesis by (simp add: join_Cons lines_of_append_nl)
  qed
qed


lemma digit_char_digit: "d < 10 \<Longrightarrow> digit_char d \<in> set ''0123456789''"
  unfolding digit_char_def by (rule nth_mem) simp

lemma digit_char_no_nl: "d < 10 \<Longrightarrow> digit_char d \<noteq> newline"
  using digit_char_digit[of d] by (auto simp: newline_def)

lemma str_nat_digit: "n < 10 \<Longrightarrow> str_nat n = [digit_char n]"
  by (subst str_nat.simps) simp

lemma str_nat_no_nl: "newline \<notin> set (str_nat n)"
proof (induction n rule: str_nat.induct)
  case (1 n)
  show ?case
  proof (cases "n < 10")
    case True
    then show ?thesis using digit_char_no_nl[of n] by (subst str_nat.simps) simp
  next
    case False
    have "n mod 10 < 10" by simp
    then have "digit_char (n mod 10) \<noteq> newline" by (rule digit_char_no_nl)
    with False 1 show ?thesis by (subst str_nat.simps) simp
  qed
qed

lemma str_int_no_nl: "newline \<notin> set (str_int k)"
  using str_nat_no_nl by (simp add: str_int_def newline_def)

lemma val_loop_no_nl:
  "val_loop line acc = Inr r \<Longrightarrow> \<forall>g\<in>set acc. newline \<notin> set g \<Longrightarrow> \<forall>g\<in>set r. newline \<notin> set g"
proof (induction line arbitrary: acc)
  case Nil then show ?case by simp
next
  case (Cons v line)
  have blue: "\<And>k. newline \<notin> set (LIGHTBLUE_EX @ str_int k @ RESET)"
    using str_int_no_nl by (simp add: LIGHTBLUE_EX_def RESET_def newline_def)
  have yellow: "\<And>k. newline \<notin> set (LIGHTYELLOW_EX @ str_int k @ RESET)"
    using str_int_no_nl by (simp add: LIGHTYELLOW_EX_def RESET_def newline_def)
  have blank: "newline \<notin> set '' ''" by (simp add: newline_def)
  have ext: "\<And>g. newline \<notin> set g \<Longrightarrow> \<forall>x\<in>set (acc @ [g]). newline \<notin> set x"
    using Cons.prems(2) by simp
  from Cons.prems(1) consider
      (pos) k where "val_loop line (acc @ [LIGHTBLUE_EX @ str_int k @ RESET]) = Inr r"
    | (neg) k where "val_loop line (acc @ [LIGHTYELLOW_EX @ str_int k @ RESET]) = Inr r"
    | (zero) "val_loop line (acc @ ['' '']) = Inr r"
    | (skip) "val_loop line acc = Inr r"
    by (auto split: if_splits sum.splits)
  then show ?case
  proof cases
    case pos then show ?thesis by (rule Cons.IH[OF _ ext[OF blue]])
  next
    case neg then show ?thesis by (rule Cons.IH[OF _ ext[OF yellow]])
  next
    case zero then show ?thesis by (rule Cons.IH[OF _ ext[OF blank]])
  next
    case skip then show ?thesis by (rule Cons.IH[OF _ Cons.prems(2)])
  qed
qed

lemma join_no_nl:
  "newline \<notin> set sep \<Longrightarrow> \<forall>x\<in>set xs. newline \<notin> set x \<Longrightarrow> newline \<notin> set (join sep xs)"
  by (induction sep xs rule: join.induct) auto

lemma decorate_no_nl: "newline \<notin> set s \<Longrightarrow> newline \<notin> set (decorate i s)"
  using str_nat_no_nl[of i] by (simp add: decorate_def BLOCK_def newline_def)

lemma SEP_no_nl: "newline \<notin> set SEP"
  by (simp add: SEP_def BLOCK_def newline_def)

lemma line_loop_step:
  "line_loop b (i # is) acc =
     (case val_loop (filter (\<lambda>v. fne v 3) (diagonal b (4 - int i))) [] of
        Inl e \<Rightarrow> Inl e
      | Inr va \<Rightarrow> line_loop b is (acc @ [decorate i (join SEP va)]))"
  by (simp add: Let_def mask_ne_def decorate_def SEP_def split: sum.splits)

lemma line_loop_Inr:
  "line_loop b is acc = Inr r \<Longrightarrow>
   \<exists>ls. r = acc @ ls \<and> length ls = length is \<and>
     (\<forall>j<length is. \<exists>va. val_loop (filter (\<lambda>v. fne v 3) (diagonal b (4 - int (is ! j)))) [] = Inr va
        \<and> ls ! j = decorate (is ! j) (join SEP va))"
proof (induction "is" arbitrary: acc)
  case Nil then show ?case by simp
next
  case (Cons i "is")
  from Cons.prems obtain va where
    va: "val_loop (filter (\<lambda>v. fne v 3) (diagonal b (4 - int i))) [] = Inr va"
    and rest: "line_loop b is (acc @ [decorate i (join SEP va)]) = Inr r"
    by (auto simp only: line_loop_step split: sum.splits)
  from Cons.IH[OF rest] obtain ls where
    ls: "r = (acc @ [decorate i (join SEP va)]) @ ls" "length ls = length is"
      "\<forall>j<length is. \<exists>va. val_loop (filter (\<lambda>v. fne v 3) (diagonal b (4 - int (is ! j)))) [] = Inr va
        \<and> ls ! j = decorate (is ! j) (join SEP va)"
    by blast
  let ?ls = "decorate i (join SEP va) # ls"
  have "r = acc @ ?ls" using ls(1) by simp
  moreover have "length ?ls = length (i # is)" using ls(2) by simp
  moreover have "\<forall>j<length (i # is). \<exists>va. val_loop (filter (\<lambda>v. fne v 3) (diagonal b (4 - int ((i # is) ! j)))) [] = Inr va
        \<and> ?ls ! j = decorate ((i # is) ! j) (join SEP va)"
  proof (intro allI impI)
    fix j assume "j < length (i # is)"
    then show "\<exists>va. val_loop (filter (\<lambda>v. fne v 3) (diagonal b (4 - int ((i # is) ! j)))) [] = Inr va
        \<and> ?ls ! j = decorate ((i # is) ! j) (join SEP va)"
      using va ls(3) by (cases j) auto
  qed
  ultimately show ?case by blast
qed

lemma index_eq: "''  '' @ join '' '' (map str_nat [0..<8]) = ''  0 1 2 3 4 5 6 7''"
  by (simp add: upt_rec str_nat_digit digit_char_def)


lemma board_setup_eval: "repr \<lparr>board = board_setup\<rparr> = Inr board_setup_repr"
  by (simp add: repr_def board_setup_def board_setup_repr_def diagonal_def mask_ne_def fne_def Let_def upt_rec
      str_nat_digit digit_char_def str_int_def trunc_def SEP_def ceiling_minus)


lemma fne_iff: "fne v c = (v \<noteq> Fin c)"
  by (cases v) (auto simp: fne_def)

lemma val_loop_skip_NaN: "val_loop (xs @ NaN # ys) acc = val_loop (xs @ ys) acc"
  by (induction xs arbitrary: acc) (simp_all split: sum.splits)

lemma val_loop_Inr_glyphs:
  "val_loop line acc = Inr r \<Longrightarrow> r = acc @ map glyph (filter (\<lambda>v. v \<noteq> NaN) line)"
proof (induction line arbitrary: acc)
  case Nil then show ?case by simp
next
  case (Cons v line)
  show ?case
  proof (cases v)
    case NaN
    with Cons.prems have "val_loop line acc = Inr r" by simp
    from Cons.IH[OF this] NaN show ?thesis by simp
  next
    case PInf with Cons.prems show ?thesis by simp
  next
    case NInf with Cons.prems show ?thesis by simp
  next
    case (Fin q)
    with Cons.prems have "val_loop line (acc @ [glyph v]) = Inr r"
      by (auto split: if_splits)
    from Cons.IH[OF this] Fin show ?thesis by simp
  qed
qed

lemma val_loop_total:
  "list_all (\<lambda>v. \<not> is_inf v) line \<Longrightarrow>
   val_loop line acc = Inr (acc @ map glyph (filter (\<lambda>v. v \<noteq> NaN) line))"
proof (induction line arbitrary: acc)
  case Nil then show ?case by simp
next
  case (Cons v line)
  then have IH: "\<And>acc. val_loop line acc = Inr (acc @ map glyph (filter (\<lambda>v. v \<noteq> NaN) line))"
    by simp
  from Cons.prems have "\<not> is_inf v" by simp
  then show ?case by (cases v) (simp_all add: IH)
qed

lemma val_loop_Inl: "val_loop line acc = Inl e \<Longrightarrow> e = OverflowError"
proof (induction line arbitrary: acc)
  case Nil then show ?case by simp
next
  case (Cons v line)
  then show ?case by (cases v) (auto split: if_splits)
qed

lemma diag_from_subset: "set (diag_from a c) \<subseteq> set (concat a)"
  by (induction a arbitrary: c) (auto simp del: diag_from.simps simp add: diag_from.simps[abs_def] split: if_splits)

lemma finite_cells_diagonal:
  "finite_cells b \<Longrightarrow> list_all (\<lambda>v. \<not> is_inf v) (filter p (diagonal b k))"
  using diag_from_subset[of b k]
  by (auto simp: finite_cells_def list_all_iff diagonal_def)

lemma line_loop_total: "finite_cells b \<Longrightarrow> \<exists>r. line_loop b is acc = Inr r"
proof (induction "is" arbitrary: acc)
  case Nil then show ?case by simp
next
  case (Cons i "is")
  from val_loop_total[OF finite_cells_diagonal[OF Cons.prems]]
  obtain va where "val_loop (filter (\<lambda>v. fne v 3) (diagonal b (4 - int i))) [] = Inr va"
    by blast
  then show ?case using Cons.IH[OF Cons.prems] by (simp only: line_loop_step sum.case)
qed

lemma line_loop_Inl: "line_loop b is acc = Inl e \<Longrightarrow> e = OverflowError"
proof (induction "is" arbitrary: acc)
  case Nil then show ?case by simp
next
  case (Cons i "is")
  then show ?case
    by (auto simp only: line_loop_step split: sum.splits dest: val_loop_Inl)
qed

lemma repr_unfold:
  "repr self =
     (case line_loop (board self) [0..<8] [''  0 1 2 3 4 5 6 7''] of
        Inl e \<Rightarrow> Inl e
      | Inr r \<Rightarrow> Inr (join [newline] r))"
  by (simp only: repr_def Let_def index_eq)

lemma repr_total: "finite_cells (board self) \<Longrightarrow> \<exists>out. repr self = Inr out"
proof -
  assume "finite_cells (board self)"
  from line_loop_total[OF this, of "[0..<8]" "[''  0 1 2 3 4 5 6 7'']"]
  obtain r where "line_loop (board self) [0..<8] [''  0 1 2 3 4 5 6 7''] = Inr r" by blast
  then show ?thesis by (simp only: repr_unfold sum.case) blast
qed

lemma repr_Inl: "repr self = Inl e \<Longrightarrow> e = OverflowError"
  by (auto simp only: repr_unfold split: sum.splits dest: line_loop_Inl)

lemma repr_lines:
  assumes "repr self = Inr out"
  shows "\<exists>ls. lines_of out = ''  0 1 2 3 4 5 6 7'' # ls \<and> length ls = 8 \<and>
     (\<forall>j<8. \<exists>va. val_loop (filter (\<lambda>v. fne v 3) (diagonal (board self) (4 - int j))) [] = Inr va
        \<and> ls ! j = decorate j (join SEP va))"
proof -
  let ?index = "''  0 1 2 3 4 5 6 7''"
  from assms obtain r where r: "line_loop (board self) [0..<8] [?index] = Inr r"
    and out: "out = join [newline] r"
    by (auto simp only: repr_unfold split: sum.splits)
  from line_loop_Inr[OF r] obtain ls where
    ls: "r = [?index] @ ls" "length ls = length [0..<8]"
      "\<forall>j<length [0..<8]. \<exists>va. val_loop (filter (\<lambda>v. fne v 3) (diagonal (board self) (4 - int ([0..<8] ! j)))) [] = Inr va
        \<and> ls ! j = decorate ([0..<8] ! j) (join SEP va)"
    by blast
  have len: "length ls = 8" using ls(2) by simp
  have rows: "\<forall>j<8. \<exists>va. val_loop (filter (\<lambda>v. fne v 3) (diagonal (board self) (4 - int j))) [] = Inr va
        \<and> ls ! j = decorate j (join SEP va)"
  proof (intro allI impI)
    fix j :: nat assume j: "j < 8"
    then have "[0..<8] ! j = j" by (metis add_0 nth_upt)
    with ls(3) j show "\<exists>va. val_loop (filter (\<lambda>v. fne v 3) (diagonal (board self) (4 - int j))) [] = Inr va
        \<and> ls ! j = decorate j (join SEP va)"
      by (metis length_upt minus_nat.diff_0)
  qed
  have nonl: "\<forall>x\<in>set r. newline \<notin> set x"
  proof
    fix x assume "x \<in> set r"
    then consider "x = ?index" | "x \<in> set ls" using ls(1) by auto
    then show "newline \<notin> set x"
    proof cases
      case 1 then show ?thesis by (simp add: newline_def)
    next
      case 2
      then obtain j where j: "j < 8" "x = ls ! j" using len by (metis in_set_conv_nth)
      with rows obtain va where
        va: "val_loop (filter (\<lambda>v. fne v 3) (diagonal (board self) (4 - int j))) [] = Inr va"
        and x: "x = decorate j (join SEP va)" by metis
      from val_loop_no_nl[OF va] have "\<forall>g\<in>set va. newline \<notin> set g" by simp
      then show ?thesis unfolding x by (intro decorate_no_nl join_no_nl SEP_no_nl)
    qed
  qed
  have "lines_of out = r" unfolding out using ls(1) nonl by (intro lines_of_join) auto
  with ls(1) len rows show ?thesis by auto
qed

lemma diag_from_index:
  "diag_from a c =
     map (\<lambda>r. a ! r ! nat (int r + c))
       (filter (\<lambda>r. 0 \<le> int r + c \<and> nat (int r + c) < length (a ! r)) [0..<length a])"
proof (induction a arbitrary: c)
  case Nil show ?case by simp
next
  case (Cons row rows)
  have upt: "[0..<Suc (length rows)] = 0 # map Suc [0..<length rows]"
    by (simp add: upt_conv_Cons map_Suc_upt del: upt_Suc)
  have shift: "\<And>r. int r + (c + 1) = 1 + int r + c" by simp
  have tl: "diag_from rows (c + 1) =
      map (\<lambda>r. (row # rows) ! Suc r ! nat (int (Suc r) + c))
       (filter (\<lambda>r. 0 \<le> int (Suc r) + c \<and> nat (int (Suc r) + c) < length ((row # rows) ! Suc r))
          [0..<length rows])"
    by (subst Cons.IH) (simp add: shift)
  have "diag_from (row # rows) c =
      (if 0 \<le> c \<and> nat c < length row then [row ! nat c] else []) @ diag_from rows (c + 1)"
    by simp
  also have "\<dots> = map (\<lambda>r. (row # rows) ! r ! nat (int r + c))
       (filter (\<lambda>r. 0 \<le> int r + c \<and> nat (int r + c) < length ((row # rows) ! r))
          (0 # map Suc [0..<length rows]))"
    unfolding tl by (simp add: filter_map o_def del: of_nat_Suc)
  finally show ?case by (simp only: length_Cons upt)
qed


lemma diagonal_index:
  "diagonal a k =
     map (\<lambda>r. a ! r ! nat (int r + k))
       (filter (\<lambda>r. 0 \<le> int r + k \<and> nat (int r + k) < length (a ! r)) [0..<length a])"
  unfolding diagonal_def by (rule diag_from_index)

lemma replicate_4: "replicate 4 x = [x, x, x, x]"
  by (simp add: numeral_eq_Suc)

lemma board_setup_repr_lines:
  "lines_of board_setup_repr =
     [''  0 1 2 3 4 5 6 7'',
      decorate 0 (join SEP (replicate 4 (LIGHTBLUE_EX @ ''1'' @ RESET))),
      decorate 1 (join SEP (replicate 4 (LIGHTBLUE_EX @ ''1'' @ RESET))),
      decorate 2 (join SEP (replicate 4 (LIGHTBLUE_EX @ ''1'' @ RESET))),
      decorate 3 (join SEP (replicate 4 '' '')),
      decorate 4 (join SEP (replicate 4 '' '')),
      decorate 5 (join SEP (replicate 4 (LIGHTYELLOW_EX @ ''1'' @ RESET))),
      decorate 6 (join SEP (replicate 4 (LIGHTYELLOW_EX @ ''1'' @ RESET))),
      decorate 7 (join SEP (replicate 4 (LIGHTYELLOW_EX @ ''1'' @ RESET)))]"
  by (simp add: board_setup_repr_def decorate_def SEP_def BLOCK_def LIGHTBLUE_EX_def
      LIGHTYELLOW_EX_def RESET_def newline_def str_nat_digit digit_char_def replicate_4)

lemma finite_cells_board_setup: "finite_cells board_setup"
  by (simp add: finite_cells_def board_setup_def)

lemma finite_cells_diamond8: "finite_cells diamond8"
  by (simp add: finite_cells_def diamond8_def Let_def)

lemma val_loop_inf: "list_ex is_inf line \<Longrightarrow> val_loop line acc = Inl OverflowError"
proof (induction line arbitrary: acc)
  case Nil then show ?case by simp
next
  case (Cons v line)
  show ?case
  proof (cases "is_inf v")
    case True
    then show ?thesis by (cases v) simp_all
  next
    case False
    with Cons.prems have "list_ex is_inf line" by simp
    then have IH: "\<And>acc. val_loop line acc = Inl OverflowError" by (rule Cons.IH)
    from False show ?thesis by (cases v) (simp_all add: IH)
  qed
qed

lemma list_ex_inf_mask: "list_ex is_inf (filter (\<lambda>v. fne v 3) line) = list_ex is_inf line"
  by (induction line) (auto simp add: fne_iff)

lemma list_all_not_inf: "\<not> list_ex is_inf line \<Longrightarrow> list_all (\<lambda>v. \<not> is_inf v) line"
  by (induction line) simp_all

lemma line_loop_closed:
  "line_loop b is acc =
     (if list_ex (\<lambda>i. list_ex is_inf (diagonal b (4 - int i))) is then Inl OverflowError
      else Inr (acc @ map (row_text b) is))"
proof (induction "is" arbitrary: acc)
  case Nil
  show ?case by simp
next
  case (Cons i "is")
  let ?line = "filter (\<lambda>v. fne v 3) (diagonal b (4 - int i))"
  show ?case
  proof (cases "list_ex is_inf (diagonal b (4 - int i))")
    case True
    then have "list_ex is_inf ?line" by (simp add: list_ex_inf_mask)
    then have "val_loop ?line [] = Inl OverflowError" by (rule val_loop_inf)
    with True show ?thesis by (simp add: line_loop_step del: line_loop.simps)
  next
    case False
    then have "\<not> list_ex is_inf ?line" by (simp add: list_ex_inf_mask)
    then have "list_all (\<lambda>v. \<not> is_inf v) ?line" by (rule list_all_not_inf)
    then have "val_loop ?line [] = Inr ([] @ map glyph (filter (\<lambda>v. v \<noteq> NaN) ?line))"
      by (rule val_loop_total)
    moreover have "filter (\<lambda>v. v \<noteq> NaN) ?line
        = filter (\<lambda>v. v \<noteq> Fin 3 \<and> v \<noteq> NaN) (diagonal b (4 - int i))"
      by (simp add: fne_iff conj_commute)
    ultimately have va: "val_loop ?line [] = Inr (map glyph
        (filter (\<lambda>v. v \<noteq> Fin 3 \<and> v \<noteq> NaN) (diagonal b (4 - int i))))"
      by simp
    have "line_loop b (i # is) acc = line_loop b is (acc @ [row_text b i])"
      by (simp only: line_loop_step va sum.case row_text_def)
    also have "\<dots> = (if list_ex (\<lambda>i. list_ex is_inf (diagonal b (4 - int i))) is
        then Inl OverflowError else Inr ((acc @ [row_text b i]) @ map (row_text b) is))"
      by (rule Cons.IH)
    finally show ?thesis using False by (simp del: line_loop.simps)
  qed
qed

subsection \<open>Auxiliary facts about the move cache\<close>

lemma position_of_key_of: "position_of (key_of b) = b"
  by (simp add: position_of_def key_of_def)

lemma cache_ok_empty: "cache_ok f (empty_cache n)"
  by (simp add: cache_ok_def empty_cache_def)

lemma cache_ok_lookup:
  assumes "cache_ok f c" and "map_of (entries c) (key_of b) = Some m"
  shows "f b = Inr m"
proof -
  from assms(2) have "(key_of b, m) \<in> set (entries c)"
    by (rule map_of_SomeD)
  with assms(1) have "f (position_of (key_of b)) = Inr m"
    by (auto simp add: cache_ok_def list_all_iff)
  then show ?thesis
    by (simp add: position_of_key_of)
qed

lemma cache_moves_result: "cache_ok f c \<Longrightarrow> fst (cache_moves f c b) = f b"
  by (auto simp add: cache_moves_def Let_def cache_ok_lookup split: option.splits sum.splits)

lemma cache_moves_ok:
  assumes "cache_ok f c"
  shows "cache_ok f (snd (cache_moves f c b))"
proof (cases "map_of (entries c) (key_of b)")
  case None
  show ?thesis
  proof (cases "f b")
    case (Inl e)
    with None assms show ?thesis
      by (simp add: cache_moves_def Let_def)
  next
    case (Inr m)
    have "set (take (capacity c) ((key_of b, m) # entries c)) \<subseteq> set ((key_of b, m) # entries c)"
      by (rule set_take_subset)
    with None Inr assms show ?thesis
      by (auto simp add: cache_moves_def Let_def cache_ok_def list_all_iff position_of_key_of)
  qed
next
  case (Some m)
  with assms have "f b = Inr m"
    by (simp add: cache_ok_lookup)
  with Some assms show ?thesis
    by (auto simp add: cache_moves_def Let_def cache_ok_def list_all_iff position_of_key_of)
qed

lemma cache_moves_capacity: "capacity (snd (cache_moves f c b)) = capacity c"
  by (simp add: cache_moves_def Let_def split: option.splits sum.splits)

lemma cached_calls_ok:
  "cache_ok f c \<Longrightarrow> fst (cached_calls f c bs) = map f bs \<and> cache_ok f (snd (cached_calls f c bs))"
proof (induction bs arbitrary: c)
  case Nil
  then show ?case by simp
next
  case (Cons b bs)
  obtain r c' where step: "cache_moves f c b = (r, c')"
    by (cases "cache_moves f c b")
  from Cons.prems have "fst (cache_moves f c b) = f b"
    by (rule cache_moves_result)
  with step have r: "r = f b" by simp
  from cache_moves_ok [OF Cons.prems, of b] step have ok: "cache_ok f c'" by simp
  from Cons.IH [OF ok] step r show ?case
    by (auto split: prod.splits)
qed

lemma cache_ok_failing_key:
  assumes "cache_ok f c" and "f b = Inl e"
  shows "map_of (entries c) (key_of b) = None"
proof (cases "map_of (entries c) (key_of b)")
  case None
  then show ?thesis .
next
  case (Some m)
  with assms(1) have "f b = Inr m" by (simp add: cache_ok_lookup)
  with assms(2) show ?thesis by simp
qed


section \<open>The initial Checkers grid\<close>

text \<open>
  C10. \<^verbatim>\<open>board_setup\<close> takes no argument and reads no state, so every call returns this one
  grid. It has 7 rows of 8 columns each (it is not square), and holds exactly 12 cells equal
  to 1, 12 cells equal to -1, 8 cells equal to 0 and 24 NaN cells.
\<close>

theorem board_setup_shape_and_counts:
  "map length board_setup = [8, 8, 8, 8, 8, 8, 8]
   \<and> length board_setup = 7
   \<and> count_list (concat board_setup) (Fin 1) = 12
   \<and> count_list (concat board_setup) (Fin (-1)) = 12
   \<and> count_list (concat board_setup) (Fin 0) = 8
   \<and> count_list (concat board_setup) NaN = 24"
  by (simp add: board_setup_def)


section \<open>Which diagonal a row shows\<close>

text \<open>
  C2 (as the code has it). For every board and every row index \<open>i\<close> from 0 to 7, when
  \<^verbatim>\<open>_repr\<close> returns, line \<open>i + 1\<close> of its output (line 0 is the header) is the text the
  loop body builds from the diagonal at offset \<open>4 - i\<close>: the row number, and the glyphs
  that the inner loop yields for the cells of that diagonal other than 3, joined by the
  separator, with the block before them on even rows and after them on odd rows. That
  diagonal is the list of the cells \<open>board[r][r + 4 - i]\<close> that exist, by increasing \<open>r\<close>.
  The specification says offset \<open>3 - i\<close>; the code reads \<^verbatim>\<open>board.diagonal(4-i)\<close>, which on
  the 7 by 8 grid of \<^verbatim>\<open>board_setup\<close> gives the eight rows of four playable cells.
\<close>

theorem repr_row_is_diagonal_4_minus_i:
  assumes "i < 8" and "repr self = Inr out"
  shows "\<exists>val_acc.
      val_loop (filter (\<lambda>v. fne v 3) (diagonal (board self) (4 - int i))) [] = Inr val_acc
    \<and> lines_of out ! Suc i =
        str_nat i @ '' '' @
          (if i mod 2 = 1 then join ('' '' @ BLOCK @ '' '') val_acc @ '' '' @ BLOCK
           else BLOCK @ '' '' @ join ('' '' @ BLOCK @ '' '') val_acc)
    \<and> diagonal (board self) (4 - int i) =
        map (\<lambda>r. board self ! r ! nat (int r + (4 - int i)))
          (filter (\<lambda>r. 0 \<le> int r + (4 - int i)
                      \<and> nat (int r + (4 - int i)) < length (board self ! r))
             [0..<length (board self)])"
proof -
  from repr_lines[OF assms(2)] obtain ls where
    ls: "lines_of out = ''  0 1 2 3 4 5 6 7'' # ls"
    and rows: "\<forall>j<8. \<exists>va. val_loop (filter (\<lambda>v. fne v 3) (diagonal (board self) (4 - int j))) [] = Inr va
        \<and> ls ! j = decorate j (join SEP va)"
    by blast
  from rows assms(1) obtain va where
    va: "val_loop (filter (\<lambda>v. fne v 3) (diagonal (board self) (4 - int i))) [] = Inr va"
    and row: "ls ! i = decorate i (join SEP va)" by blast
  have line: "lines_of out ! Suc i = decorate i (join SEP va)" using ls row by simp
  have shape: "decorate i (join SEP va) =
        str_nat i @ '' '' @
          (if i mod 2 = 1 then join ('' '' @ BLOCK @ '' '') va @ '' '' @ BLOCK
           else BLOCK @ '' '' @ join ('' '' @ BLOCK @ '' '') va)"
    unfolding decorate_def SEP_def ..
  show ?thesis
    by (rule exI[of _ va]) (intro conjI va line[unfolded shape] diagonal_index)
qed

text \<open>The theorem at the initial grid and row 4: the row shows the main diagonal, four
  empty cells between off-board NaN cells.\<close>

theorem repr_row_is_diagonal_4_minus_i_witness:
  "(4::nat) < 8
   \<and> repr \<lparr>board = board_setup\<rparr> = Inr board_setup_repr
   \<and> diagonal board_setup (4 - int 4) = [NaN, NaN, Fin 0, Fin 0, Fin 0, Fin 0, NaN]
   \<and> lines_of board_setup_repr ! Suc 4 =
       str_nat 4 @ '' '' @ BLOCK @ '' '' @ join ('' '' @ BLOCK @ '' '') ['' '', '' '', '' '', '' '']"
proof -
  have h: "(4::nat) < 8" by simp
  have d: "diagonal board_setup (4 - int 4) = [NaN, NaN, Fin 0, Fin 0, Fin 0, Fin 0, NaN]"
    by (simp add: diagonal_def board_setup_def)
  from repr_row_is_diagonal_4_minus_i[OF h board_setup_eval] obtain va where
    va: "val_loop (filter (\<lambda>v. fne v 3) (diagonal (board \<lparr>board = board_setup\<rparr>) (4 - int 4))) [] = Inr va"
    and l: "lines_of board_setup_repr ! Suc 4 =
        str_nat 4 @ '' '' @
          (if (4::nat) mod 2 = 1 then join ('' '' @ BLOCK @ '' '') va @ '' '' @ BLOCK
           else BLOCK @ '' '' @ join ('' '' @ BLOCK @ '' '') va)"
    by blast
  have "board \<lparr>board = board_setup\<rparr> = board_setup" by simp
  with va d have "va = ['' '', '' '', '' '', '' '']" by (simp add: fne_def)
  with l have "lines_of board_setup_repr ! Suc 4 =
       str_nat 4 @ '' '' @ BLOCK @ '' '' @ join ('' '' @ BLOCK @ '' '') ['' '', '' '', '' '', '' '']"
    by simp
  with h board_setup_eval d show ?thesis by blast
qed

text \<open>
  C2 as the specification states it fails. On the initial grid, row 4 (line 5 of the
  output) is not the text of the diagonal at offset \<open>3 - 4\<close>: that diagonal holds four
  pieces of player B, and the row printed holds four empty cells.
\<close>

theorem row_offset_3_minus_i_counterexample:
  "repr \<lparr>board = board_setup\<rparr> = Inr board_setup_repr
   \<and> diagonal board_setup (3 - int 4) = [NaN, Fin (-1), Fin (-1), Fin (-1), Fin (-1), NaN]
   \<and> val_loop (filter (\<lambda>v. fne v 3) (diagonal board_setup (3 - int 4))) []
       = Inr (replicate 4 (LIGHTYELLOW_EX @ ''1'' @ RESET))
   \<and> lines_of board_setup_repr ! Suc 4
       \<noteq> decorate 4 (join SEP (replicate 4 (LIGHTYELLOW_EX @ ''1'' @ RESET)))"
proof -
  have d: "diagonal board_setup (3 - int 4) = [NaN, Fin (-1), Fin (-1), Fin (-1), Fin (-1), NaN]"
    by (simp add: diagonal_def board_setup_def)
  have v: "val_loop (filter (\<lambda>v. fne v 3) (diagonal board_setup (3 - int 4))) []
       = Inr (replicate 4 (LIGHTYELLOW_EX @ ''1'' @ RESET))"
    unfolding d
    by (simp add: fne_def trunc_def str_int_def str_nat_digit digit_char_def ceiling_minus
        replicate_4)
  have l: "lines_of board_setup_repr ! Suc 4 = decorate 4 (join SEP (replicate 4 '' ''))"
    unfolding board_setup_repr_lines by simp
  have ne: "decorate 4 (join SEP (replicate 4 '' ''))
       \<noteq> decorate 4 (join SEP (replicate 4 (LIGHTYELLOW_EX @ ''1'' @ RESET)))"
    by (simp add: decorate_def SEP_def BLOCK_def LIGHTYELLOW_EX_def RESET_def replicate_4)
  from board_setup_eval d v l ne show ?thesis by simp
qed

section \<open>The shape of the grid is never checked\<close>

text \<open>
  C3 (as the code has it). \<^verbatim>\<open>_repr\<close> checks no shape and never raises
  \<^verbatim>\<open>MalformedBoardError\<close>, whatever the grid: square or not, of size 8 or not. For a grid
  of any shape without an infinite cell it returns a complete string of nine lines.
\<close>

theorem repr_never_raises_MalformedBoardError:
  "repr self \<noteq> Inl MalformedBoardError
   \<and> (finite_cells (board self) \<longrightarrow> (\<exists>out. repr self = Inr out \<and> length (lines_of out) = 9))"
proof (intro conjI impI)
  show "repr self \<noteq> Inl MalformedBoardError"
    using repr_Inl[of self MalformedBoardError] by auto
next
  assume "finite_cells (board self)"
  from repr_total[OF this] obtain out where out: "repr self = Inr out" by blast
  from repr_lines[OF out] obtain ls where
    "lines_of out = ''  0 1 2 3 4 5 6 7'' # ls" "length ls = 8" by blast
  then have "length (lines_of out) = 9" by simp
  with out show "\<exists>out. repr self = Inr out \<and> length (lines_of out) = 9" by blast
qed

text \<open>The theorem at the initial Checkers grid, which has 7 rows of 8 columns.\<close>

theorem repr_never_raises_MalformedBoardError_witness:
  "finite_cells (board \<lparr>board = board_setup\<rparr>)
   \<and> length board_setup = 7 \<and> map length board_setup = [8, 8, 8, 8, 8, 8, 8]
   \<and> repr \<lparr>board = board_setup\<rparr> \<noteq> Inl MalformedBoardError
   \<and> (\<exists>out. repr \<lparr>board = board_setup\<rparr> = Inr out \<and> length (lines_of out) = 9)"
proof -
  have f: "finite_cells (board \<lparr>board = board_setup\<rparr>)"
    using finite_cells_board_setup by simp
  have s: "length board_setup = 7 \<and> map length board_setup = [8, 8, 8, 8, 8, 8, 8]"
    by (simp add: board_setup_def)
  from repr_never_raises_MalformedBoardError[of "\<lparr>board = board_setup\<rparr>"] f s
  show ?thesis by blast
qed

text \<open>
  C3 as the specification states it fails. The grid of \<^verbatim>\<open>board_setup\<close> is not square (7
  rows of 8 columns) and a 2 by 2 grid is square but not of size 8; \<^verbatim>\<open>_repr\<close> returns a
  string for both.
\<close>

theorem malformed_board_counterexample:
  "length board_setup = 7
   \<and> map length board_setup = [8, 8, 8, 8, 8, 8, 8]
   \<and> repr \<lparr>board = board_setup\<rparr> = Inr board_setup_repr
   \<and> repr \<lparr>board = [[Fin 1, Fin 0], [Fin 0, Fin (-1)]]\<rparr> =
       Inr (join [newline]
         [''  0 1 2 3 4 5 6 7'',
          decorate 0 [], decorate 1 [], decorate 2 [],
          decorate 3 '' '',
          decorate 4 (join SEP [LIGHTBLUE_EX @ ''1'' @ RESET, LIGHTYELLOW_EX @ ''1'' @ RESET]),
          decorate 5 '' '',
          decorate 6 [], decorate 7 []])"
proof -
  have s: "length board_setup = 7 \<and> map length board_setup = [8, 8, 8, 8, 8, 8, 8]"
    by (simp add: board_setup_def)
  have r: "repr \<lparr>board = [[Fin 1, Fin 0], [Fin 0, Fin (-1)]]\<rparr> =
       Inr (join [newline]
         [''  0 1 2 3 4 5 6 7'',
          decorate 0 [], decorate 1 [], decorate 2 [],
          decorate 3 '' '',
          decorate 4 (join SEP [LIGHTBLUE_EX @ ''1'' @ RESET, LIGHTYELLOW_EX @ ''1'' @ RESET]),
          decorate 5 '' '',
          decorate 6 [], decorate 7 []])"
    by (simp add: repr_def diagonal_def mask_ne_def fne_def Let_def upt_rec decorate_def
      str_nat_digit digit_char_def str_int_def trunc_def SEP_def ceiling_minus)
  from s board_setup_eval r show ?thesis by blast
qed

section \<open>The rendering is a function of the grid\<close>

text \<open>
  C4. The output of \<^verbatim>\<open>_repr\<close> is a function of the grid contents and of nothing else: for
  every board state it is the value of \<open>render\<close>, an expression in the cells of the grid
  alone, whatever other attributes the state carries. Hence two invocations on an unchanged
  grid, be it on the same state or on two states that differ in everything but the grid,
  give the same string byte for byte (or fail with the same error).
\<close>

theorem repr_depends_only_on_board:
  fixes s :: "'a board_state_scheme" and t :: "'b board_state_scheme"
  shows "repr s = render (board s) \<and> (board t = board s \<longrightarrow> repr t = repr s)"
proof -
  have r: "\<And>u :: 'c board_state_scheme. repr u = render (board u)"
    by (simp only: repr_unfold line_loop_closed render_def append_Cons append_Nil
        if_distrib [of "case_sum Inl (\<lambda>r. Inr (join [newline] r))"] sum.case cong: if_cong)
  show ?thesis
    by (simp add: r)
qed

text \<open>Two states that hold the initial Checkers grid and differ in their other attributes:
  both render to the text traced by hand, which is also the value of \<open>render\<close> on the grid.\<close>

theorem repr_depends_only_on_board_witness:
  "board \<lparr>board = board_setup, \<dots> = ''B to move''\<rparr> = board \<lparr>board = board_setup, \<dots> = (1::int)\<rparr>
   \<and> repr \<lparr>board = board_setup, \<dots> = ''B to move''\<rparr> = repr \<lparr>board = board_setup, \<dots> = (1::int)\<rparr>
   \<and> repr \<lparr>board = board_setup, \<dots> = (1::int)\<rparr> = render board_setup
   \<and> render board_setup = Inr board_setup_repr"
proof -
  have h: "board \<lparr>board = board_setup, \<dots> = ''B to move''\<rparr>
      = board \<lparr>board = board_setup, \<dots> = (1::int)\<rparr>"
    by simp
  from repr_depends_only_on_board
    [of "\<lparr>board = board_setup, \<dots> = (1::int)\<rparr>" "\<lparr>board = board_setup, \<dots> = ''B to move''\<rparr>"]
  have a: "repr \<lparr>board = board_setup, \<dots> = (1::int)\<rparr> = render board_setup"
    and b: "repr \<lparr>board = board_setup, \<dots> = ''B to move''\<rparr>
      = repr \<lparr>board = board_setup, \<dots> = (1::int)\<rparr>"
    by simp_all
  from repr_depends_only_on_board [of "\<lparr>board = board_setup\<rparr>" "\<lparr>board = board_setup\<rparr>"]
  have "render board_setup = repr \<lparr>board = board_setup\<rparr>" by simp
  then have c: "render board_setup = Inr board_setup_repr"
    by (simp only: board_setup_eval)
  from h a b c show ?thesis by blast
qed

section \<open>Cells that leave no glyph\<close>

text \<open>
  C5. Whenever \<^verbatim>\<open>_repr\<close> returns, the glyphs of row \<open>i\<close> are exactly the glyphs of the cells
  of its diagonal that are not off-board markers, in order: a cell equal to the sentinel 3
  is removed by the filter \<^verbatim>\<open>line != 3\<close> (and a NaN cell passes through every branch), so
  no glyph of an off-board cell appears on any content line.
\<close>

theorem sentinel_cells_not_rendered:
  assumes "i < 8" and "repr self = Inr out"
  shows "lines_of out ! Suc i =
     decorate i (join SEP (map glyph
       (filter (\<lambda>v. v \<noteq> Fin 3 \<and> v \<noteq> NaN) (diagonal (board self) (4 - int i)))))"
proof -
  from repr_lines[OF assms(2)] obtain ls where
    ls: "lines_of out = ''  0 1 2 3 4 5 6 7'' # ls"
    and rows: "\<forall>j<8. \<exists>va. val_loop (filter (\<lambda>v. fne v 3) (diagonal (board self) (4 - int j))) [] = Inr va
        \<and> ls ! j = decorate j (join SEP va)"
    by blast
  from rows assms(1) obtain va where
    va: "val_loop (filter (\<lambda>v. fne v 3) (diagonal (board self) (4 - int i))) [] = Inr va"
    and row: "ls ! i = decorate i (join SEP va)" by blast
  have "va = map glyph (filter (\<lambda>v. v \<noteq> NaN)
      (filter (\<lambda>v. fne v 3) (diagonal (board self) (4 - int i))))"
    using val_loop_Inr_glyphs[OF va] by simp
  then have "va = map glyph
      (filter (\<lambda>v. v \<noteq> Fin 3 \<and> v \<noteq> NaN) (diagonal (board self) (4 - int i)))"
    by (simp add: fne_iff conj_commute)
  with ls row show ?thesis by simp
qed

text \<open>The theorem at row 2 of the diamond grid, whose diagonal starts and ends with the
  sentinel 3: the row shows the four cells between them.\<close>

theorem sentinel_cells_not_rendered_witness:
  "(2::nat) < 8
   \<and> diagonal diamond8 (4 - int 2) = [Fin 3, Fin 1, Fin 1, Fin 1, Fin (-1), Fin 3]
   \<and> (\<exists>out. repr \<lparr>board = diamond8\<rparr> = Inr out
        \<and> lines_of out ! Suc 2 =
            decorate 2 (join SEP
              [LIGHTBLUE_EX @ ''1'' @ RESET, LIGHTBLUE_EX @ ''1'' @ RESET,
               LIGHTBLUE_EX @ ''1'' @ RESET, LIGHTYELLOW_EX @ ''1'' @ RESET]))"
proof -
  have h: "(2::nat) < 8" by simp
  have d: "diagonal diamond8 (4 - int 2) = [Fin 3, Fin 1, Fin 1, Fin 1, Fin (-1), Fin 3]"
    by (simp add: diagonal_def diamond8_def Let_def)
  have "finite_cells (board \<lparr>board = diamond8\<rparr>)" using finite_cells_diamond8 by simp
  from repr_total[OF this] obtain out where out: "repr \<lparr>board = diamond8\<rparr> = Inr out" by blast
  have g: "map glyph (filter (\<lambda>v. v \<noteq> Fin 3 \<and> v \<noteq> NaN) (diagonal diamond8 (4 - int 2))) =
      [LIGHTBLUE_EX @ ''1'' @ RESET, LIGHTBLUE_EX @ ''1'' @ RESET,
       LIGHTBLUE_EX @ ''1'' @ RESET, LIGHTYELLOW_EX @ ''1'' @ RESET]"
    unfolding d by (simp add: trunc_def str_int_def str_nat_digit digit_char_def ceiling_minus)
  from sentinel_cells_not_rendered[OF h out] g
  have "lines_of out ! Suc 2 =
            decorate 2 (join SEP
              [LIGHTBLUE_EX @ ''1'' @ RESET, LIGHTBLUE_EX @ ''1'' @ RESET,
               LIGHTBLUE_EX @ ''1'' @ RESET, LIGHTYELLOW_EX @ ''1'' @ RESET])"
    by simp
  with h d out show ?thesis by blast
qed

text \<open>
  C9. The filter \<^verbatim>\<open>line[line != 3]\<close> of the renderer removes from a diagonal the cells equal
  to 3 and no others: every NaN cell, the off-board marker of the Checkers grid, passes it
  (\<^verbatim>\<open>nan != 3\<close> is true). In the glyph loop a NaN cell matches none of the branches
  \<^verbatim>\<open>v > 0\<close>, \<^verbatim>\<open>v < 0\<close>, \<^verbatim>\<open>v == 0\<close>, so the loop goes on as if the cell were absent. On a
  grid with NaN cells (and no infinite cell) \<^verbatim>\<open>_repr\<close> therefore raises nothing, and row
  \<open>i\<close> of its output shows the glyphs of the cells that passed the filter, the NaN cells
  left out.
\<close>

theorem nan_passes_filter_and_emits_nothing:
  assumes "i < 8" and "finite_cells (board self)"
  shows "mask_ne (diagonal (board self) (4 - int i)) 3
           = filter (\<lambda>v. v \<noteq> Fin 3) (diagonal (board self) (4 - int i))
     \<and> count_list (mask_ne (diagonal (board self) (4 - int i)) 3) NaN
           = count_list (diagonal (board self) (4 - int i)) NaN
     \<and> val_loop (NaN # line) val_acc = val_loop line val_acc
     \<and> (\<exists>out. repr self = Inr out
          \<and> lines_of out ! Suc i =
              decorate i (join SEP (map glyph
                (filter (\<lambda>v. v \<noteq> NaN) (mask_ne (diagonal (board self) (4 - int i)) 3)))))"
proof -
  let ?d = "diagonal (board self) (4 - int i)"
  have m: "mask_ne ?d 3 = filter (\<lambda>v. v \<noteq> Fin 3) ?d"
    by (simp add: mask_ne_def fne_iff)
  have "\<And>xs. count_list (filter (\<lambda>v. v \<noteq> Fin 3) xs) NaN = count_list xs NaN"
  proof -
    fix xs :: "cell list"
    show "count_list (filter (\<lambda>v. v \<noteq> Fin 3) xs) NaN = count_list xs NaN"
      by (induction xs) simp_all
  qed
  with m have c: "count_list (mask_ne ?d 3) NaN = count_list ?d NaN"
    by simp
  have v: "val_loop (NaN # line) val_acc = val_loop line val_acc"
    by simp
  from repr_total [OF assms(2)] obtain out where out: "repr self = Inr out"
    by blast
  from repr_lines [OF out] obtain ls where
    ls: "lines_of out = ''  0 1 2 3 4 5 6 7'' # ls"
    and rows: "\<forall>j<8. \<exists>va. val_loop (filter (\<lambda>v. fne v 3) (diagonal (board self) (4 - int j))) [] = Inr va
        \<and> ls ! j = decorate j (join SEP va)"
    by blast
  from rows assms(1) obtain va where
    va: "val_loop (filter (\<lambda>v. fne v 3) ?d) [] = Inr va"
    and row: "ls ! i = decorate i (join SEP va)"
    by blast
  from val_loop_Inr_glyphs [OF va]
  have "va = map glyph (filter (\<lambda>v. v \<noteq> NaN) (mask_ne ?d 3))"
    by (simp add: mask_ne_def)
  with ls row have "lines_of out ! Suc i =
      decorate i (join SEP (map glyph (filter (\<lambda>v. v \<noteq> NaN) (mask_ne ?d 3))))"
    by simp
  with out have "\<exists>out. repr self = Inr out
      \<and> lines_of out ! Suc i =
          decorate i (join SEP (map glyph (filter (\<lambda>v. v \<noteq> NaN) (mask_ne ?d 3))))"
    by blast
  with m c v show ?thesis by blast
qed

text \<open>A grid whose main diagonal holds the sentinel 3, a NaN and a piece of player A: the
  filter drops the 3 and keeps the NaN, and row 4 shows the piece alone.\<close>

theorem nan_passes_filter_and_emits_nothing_witness:
  "(4::nat) < 8
   \<and> finite_cells (board \<lparr>board = [[Fin 3, Fin 0, Fin 0], [Fin 0, NaN, Fin 0], [Fin 0, Fin 0, Fin 1]]\<rparr>)
   \<and> diagonal [[Fin 3, Fin 0, Fin 0], [Fin 0, NaN, Fin 0], [Fin 0, Fin 0, Fin 1]] (4 - int 4)
       = [Fin 3, NaN, Fin 1]
   \<and> mask_ne [Fin 3, NaN, Fin 1] 3 = [NaN, Fin 1]
   \<and> (\<exists>out. repr \<lparr>board = [[Fin 3, Fin 0, Fin 0], [Fin 0, NaN, Fin 0], [Fin 0, Fin 0, Fin 1]]\<rparr>
                = Inr out
          \<and> lines_of out ! Suc 4 = decorate 4 (join SEP [LIGHTBLUE_EX @ ''1'' @ RESET]))"
proof -
  let ?g = "[[Fin 3, Fin 0, Fin 0], [Fin 0, NaN, Fin 0], [Fin 0, Fin 0, Fin 1]]"
  have h: "(4::nat) < 8" by simp
  have f: "finite_cells (board \<lparr>board = ?g\<rparr>)"
    by (simp add: finite_cells_def)
  have d: "diagonal ?g (4 - int 4) = [Fin 3, NaN, Fin 1]"
    by (simp add: diagonal_def)
  have k: "mask_ne [Fin 3, NaN, Fin 1] 3 = [NaN, Fin 1]"
    by (simp add: mask_ne_def fne_def)
  have g: "map glyph (filter (\<lambda>v. v \<noteq> NaN) [NaN, Fin 1]) = [LIGHTBLUE_EX @ ''1'' @ RESET]"
    by (simp add: trunc_def str_int_def str_nat_digit digit_char_def)
  from nan_passes_filter_and_emits_nothing [OF h f]
  have "\<exists>out. repr \<lparr>board = ?g\<rparr> = Inr out
      \<and> lines_of out ! Suc 4 =
          decorate 4 (join SEP (map glyph
            (filter (\<lambda>v. v \<noteq> NaN) (mask_ne (diagonal (board \<lparr>board = ?g\<rparr>) (4 - int 4)) 3))))"
    by blast
  then have "\<exists>out. repr \<lparr>board = ?g\<rparr> = Inr out
      \<and> lines_of out ! Suc 4 = decorate 4 (join SEP [LIGHTBLUE_EX @ ''1'' @ RESET])"
    using d k g by (simp del: diagonal_def)
  with h f d k show ?thesis by blast
qed

section \<open>The header and the eight rows\<close>

text \<open>
  C6. For every grid without an infinite cell, and so for the 8 by 8 diamond grid with
  player A on rows 0 to 3 and player B on rows 4 to 7, \<^verbatim>\<open>_repr\<close> returns a string of nine
  lines: the header listing the column indices 0 to 7, then eight content lines.
\<close>

theorem repr_header_and_eight_rows:
  assumes "finite_cells (board self)"
  shows "\<exists>out ls. repr self = Inr out
     \<and> lines_of out = ''  0 1 2 3 4 5 6 7'' # ls \<and> length ls = 8
     \<and> length (lines_of out) = 9"
proof -
  from repr_total[OF assms] obtain out where out: "repr self = Inr out" by blast
  from repr_lines[OF out] obtain ls where
    ls: "lines_of out = ''  0 1 2 3 4 5 6 7'' # ls" "length ls = 8" by blast
  then have "length (lines_of out) = 9" by simp
  with out ls show ?thesis by blast
qed

text \<open>The theorem at the 8 by 8 diamond grid.\<close>

theorem repr_header_and_eight_rows_witness:
  "finite_cells (board \<lparr>board = diamond8\<rparr>)
   \<and> map length diamond8 = [8, 8, 8, 8, 8, 8, 8, 8]
   \<and> (\<exists>out ls. repr \<lparr>board = diamond8\<rparr> = Inr out
        \<and> lines_of out = ''  0 1 2 3 4 5 6 7'' # ls \<and> length ls = 8
        \<and> length (lines_of out) = 9)"
proof -
  have f: "finite_cells (board \<lparr>board = diamond8\<rparr>)" using finite_cells_diamond8 by simp
  have s: "map length diamond8 = [8, 8, 8, 8, 8, 8, 8, 8]" by (simp add: diamond8_def Let_def)
  from f s repr_header_and_eight_rows[OF f] show ?thesis by blast
qed

section \<open>The glyph of a cell\<close>

text \<open>
  C7. On every line the renderer hands to its inner loop, NaN cells included, the loop
  appends for each cell other than NaN, in order, the glyph the specification describes: for
  a positive value \<open>v\<close> the decimal digits of \<^verbatim>\<open>int(v)\<close> between the colour code of player A
  and the reset code, for a negative value the digits of \<^verbatim>\<open>abs(int(v))\<close> between the colour
  code of player B and the reset code, for zero one blank without colour codes. It raises
  nothing. (The one requirement is that no cell is infinite: \<^verbatim>\<open>int\<close> raises on those.)
\<close>

theorem val_loop_emits_glyphs:
  assumes "list_all (\<lambda>v. \<not> is_inf v) line"
  shows "val_loop line val_acc = Inr (val_acc @ map glyph (filter (\<lambda>v. v \<noteq> NaN) line))"
  using assms by (rule val_loop_total)

text \<open>The theorem on row 3 of the initial Checkers grid, whose filtered diagonal keeps three
  NaN cells around four empty ones, and on a line with NaN cells, a piece of each player, an
  empty cell and a fractional value, which \<^verbatim>\<open>int\<close> truncates.\<close>

theorem val_loop_emits_glyphs_witness:
  "mask_ne (diagonal board_setup (4 - int 3)) 3 = [NaN, Fin 0, Fin 0, Fin 0, Fin 0, NaN, NaN]
   \<and> list_all (\<lambda>v. \<not> is_inf v) [NaN, Fin 0, Fin 0, Fin 0, Fin 0, NaN, NaN]
   \<and> val_loop [NaN, Fin 0, Fin 0, Fin 0, Fin 0, NaN, NaN] [] = Inr ['' '', '' '', '' '', '' '']
   \<and> list_all (\<lambda>v. \<not> is_inf v) [NaN, Fin 2, Fin (-3), NaN, Fin 0, Fin (5 / 2)]
   \<and> val_loop [NaN, Fin 2, Fin (-3), NaN, Fin 0, Fin (5 / 2)] [] =
       Inr [LIGHTBLUE_EX @ ''2'' @ RESET, LIGHTYELLOW_EX @ ''3'' @ RESET, '' '',
            LIGHTBLUE_EX @ ''2'' @ RESET]"
proof -
  have d: "mask_ne (diagonal board_setup (4 - int 3)) 3 = [NaN, Fin 0, Fin 0, Fin 0, Fin 0, NaN, NaN]"
    by (simp add: mask_ne_def fne_def diagonal_def board_setup_def)
  have h1: "list_all (\<lambda>v. \<not> is_inf v) [NaN, Fin 0, Fin 0, Fin 0, Fin 0, NaN, NaN]" by simp
  have h2: "list_all (\<lambda>v. \<not> is_inf v) [NaN, Fin 2, Fin (-3), NaN, Fin 0, Fin (5 / 2)]" by simp
  have fl: "\<lfloor>(5::rat) / 2\<rfloor> = 2" by (rule floor_unique) simp_all
  have g: "map glyph (filter (\<lambda>v. v \<noteq> NaN) [NaN, Fin 2, Fin (-3), NaN, Fin 0, Fin (5 / 2)]) =
       [LIGHTBLUE_EX @ ''2'' @ RESET, LIGHTYELLOW_EX @ ''3'' @ RESET, '' '',
            LIGHTBLUE_EX @ ''2'' @ RESET]"
    by (simp add: trunc_def str_int_def str_nat_digit digit_char_def ceiling_minus fl)
  from val_loop_emits_glyphs [OF h1, of "[]"]
  have r1: "val_loop [NaN, Fin 0, Fin 0, Fin 0, Fin 0, NaN, NaN] [] = Inr ['' '', '' '', '' '', '' '']"
    by simp
  from val_loop_emits_glyphs [OF h2, of "[]"] g
  have r2: "val_loop [NaN, Fin 2, Fin (-3), NaN, Fin 0, Fin (5 / 2)] [] =
       Inr [LIGHTBLUE_EX @ ''2'' @ RESET, LIGHTYELLOW_EX @ ''3'' @ RESET, '' '',
            LIGHTBLUE_EX @ ''2'' @ RESET]"
    by simp
  from d h1 r1 h2 r2 show ?thesis by blast
qed


section \<open>The cached query returns what the direct query returns\<close>

text \<open>
  C1.  For every board state, the legal-move operation wrapped by \<^verbatim>\<open>cache_moves\<close> returns
  what the unwrapped \<^verbatim>\<open>get_legal_moves\<close> returns on that state.  Whatever queries a caller
  issues, starting with an empty store of any capacity, each of them gets the very value of the
  direct call, be it served from the store, computed and stored, or computed after entries
  were evicted; the same value is in particular the same collection of moves in any order.
\<close>

theorem cached_calls_transparent:
  "fst (cached_calls get_legal_moves (empty_cache n) bs) = map get_legal_moves bs"
  by (simp add: cached_calls_ok cache_ok_empty)


section \<open>A failed computation is handed on and not stored\<close>

text \<open>
  C8.  If the wrapped legal-move computation raises an error, the move cache hands that error
  on unchanged and stores nothing: after any earlier queries, the failing call returns the
  error of the direct call, leaves the store exactly as it found it, and the store holds no
  entry under the key of the failing position.
\<close>

theorem failed_call_passes_error_and_stores_nothing:
  assumes "get_legal_moves b = Inl err"
  shows "cache_moves get_legal_moves (snd (cached_calls get_legal_moves (empty_cache n) bs)) b
           = (Inl err, snd (cached_calls get_legal_moves (empty_cache n) bs))
         \<and> map_of (entries (snd (cached_calls get_legal_moves (empty_cache n) bs))) (key_of b) = None"
proof -
  let ?c = "snd (cached_calls get_legal_moves (empty_cache n) bs)"
  have ok: "cache_ok get_legal_moves ?c"
    by (simp add: cached_calls_ok cache_ok_empty)
  from ok assms have miss: "map_of (entries ?c) (key_of b) = None"
    by (rule cache_ok_failing_key)
  with assms show ?thesis
    by (simp add: cache_moves_def Let_def)
qed

text \<open>
  An instance with a store of capacity two and an operation that fails on a negative turn.
  The five earlier queries comprise a failed one, a hit and an eviction; the sixth fails and
  the store keeps its two entries.
\<close>

theorem failed_call_passes_error_and_stores_nothing_witness:
  "(\<lambda>p. if turn p < 0 then Inl ValueError else Inr [turn p]) \<lparr>board = [], turn = - 1\<rparr>
     = (Inl ValueError :: error + int list)
   \<and> cache_moves (\<lambda>p. if turn p < 0 then Inl ValueError else Inr [turn p])
       (snd (cached_calls (\<lambda>p. if turn p < 0 then Inl ValueError else Inr [turn p])
               (empty_cache 2)
               [\<lparr>board = [], turn = 1\<rparr>, \<lparr>board = [], turn = - 1\<rparr>,
                \<lparr>board = [], turn = 2\<rparr>, \<lparr>board = [], turn = 1\<rparr>,
                \<lparr>board = [], turn = 3\<rparr>]))
       \<lparr>board = [], turn = - 1\<rparr>
     = (Inl ValueError,
        \<lparr>capacity = 2, entries = [(([], 3), [3]), (([], 1), [1])]\<rparr>)"
  using failed_call_passes_error_and_stores_nothing
    [of "\<lambda>p. if turn p < 0 then Inl ValueError else Inr [turn p]"
        "\<lparr>board = [], turn = - 1\<rparr>" ValueError 2
        "[\<lparr>board = [], turn = 1\<rparr>, \<lparr>board = [], turn = - 1\<rparr>,
          \<lparr>board = [], turn = 2\<rparr>, \<lparr>board = [], turn = 1\<rparr>,
          \<lparr>board = [], turn = 3\<rparr>]"]
  by (simp add: cache_moves_def empty_cache_def key_of_def Let_def)

end
